theory Spec2Isabelle
  imports Main "HOL-Library.Word"
begin

section \<open>The queue character device of sber\_driver.c\<close>

text \<open>
  The driver keeps bytes in a linked list of one-byte elements (\<open>struct queue_element\<close>)
  hanging off a \<open>struct queue_device\<close>, which also counts them in \<open>int data_size\<close>.
  The model is sequential: one file operation runs at a time, so the \<open>rw_semaphore\<close> of
  a queue and the calls \<open>down_write\<close>, \<open>up_write\<close>, \<open>down_read\<close>, \<open>up_read\<close> have
  no counterpart here. The \<open>pr_info\<close>, \<open>pr_warn\<close> and \<open>pr_err\<close> log lines are left out.
\<close>

subsection \<open>Data\<close>

type_synonym byte = "8 word"

text \<open>
  \<open>struct queue_device\<close>: the field \<open>queue\<close> is the list of the \<open>data\<close> bytes of the
  linked elements, first element first; \<open>data_size\<close> is the C \<open>int\<close> (kernel code is
  compiled with wrapping signed arithmetic).
\<close>

record queue_device =
  queue :: "byte list"
  data_size :: "32 word"

text \<open>The error numbers the driver returns negated.\<close>

datatype errno = EBUSY | ENOMEM | ENOSPC | EFAULT | EINVAL

text \<open>
  What C leaves undefined and the kernel answers with memory corruption or an oops:
  following a pointer that addresses no live \<open>queue_device\<close>, freeing memory that
  \<open>kzalloc\<close> did not hand out (or handing it back twice), and taking
  \<open>list_first_entry\<close> of an empty list, which is no \<open>queue_element\<close>.
\<close>

datatype fault = Bad_pointer | Bad_kfree | Empty_list_entry

text \<open>
  A \<open>struct queue_device *\<close>: \<open>NULL\<close>, the address of the static \<open>default_queue\<close>, or
  an address handed out by \<open>kzalloc\<close>.
\<close>

datatype qptr = NULL | Addr_default_queue | Addr_kmem nat

text \<open>\<open>struct file\<close>, of which the driver uses \<open>private_data\<close> only.\<close>

record struct_file =
  private_data :: qptr

text \<open>
  The module's static variables and the queue devices living in allocated memory.
  \<open>single_open_lock\<close> is \<open>True\<close> while the mutex is locked.
\<close>

record driver =
  device_mode :: int
  single_open_lock :: bool
  default_queue :: queue_device
  kmem :: "nat \<rightharpoonup> queue_device"

definition QUEUE_SIZE :: "64 word" where
  "QUEUE_SIZE = 1000"

definition DEFAULT_MODE :: int where
  "DEFAULT_MODE = 0"

definition SINGLE_OPEN_MODE :: int where
  "SINGLE_OPEN_MODE = 1"

definition MULTI_OPEN_MODE :: int where
  "MULTI_OPEN_MODE = 2"

text \<open>
  The kernel's VFS layer cuts the byte count of every \<open>read(2)\<close> and \<open>write(2)\<close> down
  to \<open>MAX_RW_COUNT\<close> (\<open>INT_MAX & PAGE_MASK\<close>, 4 KiB pages) before it calls a driver's
  handler, so no handler sees a larger \<open>count\<close>.
\<close>

definition MAX_RW_COUNT :: "64 word" where
  "MAX_RW_COUNT = 0x7ffff000"

text \<open>Reading and writing the \<open>queue_device\<close> a pointer addresses.\<close>

fun deref :: "driver \<Rightarrow> qptr \<Rightarrow> queue_device option" where
  "deref st NULL = None"
| "deref st Addr_default_queue = Some (default_queue st)"
| "deref st (Addr_kmem a) = kmem st a"

fun assign :: "qptr \<Rightarrow> queue_device \<Rightarrow> driver \<Rightarrow> driver" where
  "assign NULL q st = st"
| "assign Addr_default_queue q st = st\<lparr>default_queue := q\<rparr>"
| "assign (Addr_kmem a) q st = st\<lparr>kmem := (kmem st)(a \<mapsto> q)\<rparr>"

text \<open>The state after \<open>queue_init\<close>: shared mode, mutex unlocked, empty static queue.\<close>

definition queue_init :: driver where
  "queue_init = \<lparr>device_mode = DEFAULT_MODE, single_open_lock = False,
     default_queue = \<lparr>queue = [], data_size = 0\<rparr>, kmem = Map.empty\<rparr>"

subsection \<open>device\_open\<close>

text \<open>
  \<open>kzalloc\<close> is the allocator's answer (\<open>None\<close> for a failed allocation, else the
  address of the new block), asked only in \<open>MULTI_OPEN_MODE\<close>. \<open>mutex_trylock\<close> never
  waits: it takes the mutex if it is free and reports failure otherwise.
\<close>

definition device_open :: "nat option \<Rightarrow> struct_file \<Rightarrow> driver \<Rightarrow> (errno + unit) \<times> struct_file \<times> driver" where
  "device_open kzalloc file st =
     (if device_mode st = SINGLE_OPEN_MODE \<and> single_open_lock st then (Inl EBUSY, file, st)
      else
        let st1 = (if device_mode st = SINGLE_OPEN_MODE then st\<lparr>single_open_lock := True\<rparr> else st)
        in if device_mode st1 = MULTI_OPEN_MODE then
             (case kzalloc of
                None \<Rightarrow> (Inl ENOMEM, file, st1)
              | Some a \<Rightarrow>
                  (Inr (), file\<lparr>private_data := Addr_kmem a\<rparr>,
                   st1\<lparr>kmem := (kmem st1)(a \<mapsto> \<lparr>queue = [], data_size = 0\<rparr>)\<rparr>))
           else (Inr (), file\<lparr>private_data := Addr_default_queue\<rparr>, st1))"

subsection \<open>device\_release\<close>

text \<open>The \<open>list_for_each_entry_safe\<close> loop: unlink and free the elements one by one.\<close>

fun release_loop :: "byte list \<Rightarrow> byte list" where
  "release_loop [] = []"
| "release_loop (elem # rest) = release_loop rest"

fun kfree :: "qptr \<Rightarrow> driver \<Rightarrow> fault + driver" where
  "kfree NULL st = Inr st"
| "kfree Addr_default_queue st = Inl Bad_kfree"
| "kfree (Addr_kmem a) st =
     (case kmem st a of
        None \<Rightarrow> Inl Bad_kfree
      | Some q \<Rightarrow> Inr (st\<lparr>kmem := (kmem st)(a := None)\<rparr>))"

text \<open>
  \<open>mutex_unlock\<close> is modelled as clearing the lock, whoever holds it. The function
  returns 0 on every path, so the result is the new state alone.
\<close>

definition device_release :: "struct_file \<Rightarrow> driver \<Rightarrow> fault + driver" where
  "device_release file st =
     (let queue_dev = private_data file;
          st1 = (if device_mode st = SINGLE_OPEN_MODE then st\<lparr>single_open_lock := False\<rparr> else st)
      in case deref st1 queue_dev of
           None \<Rightarrow> Inl Bad_pointer
         | Some q \<Rightarrow>
             let st2 = assign queue_dev (q\<lparr>queue := release_loop (queue q)\<rparr>) st1
             in if device_mode st2 = MULTI_OPEN_MODE then kfree queue_dev st2 else Inr st2)"

subsection \<open>device\_write\<close>

text \<open>
  The \<open>for\<close> loop of \<open>device_write\<close>, from index \<open>i\<close> on. \<open>kmalloc j\<close> tells whether
  the allocation of the \<open>j\<close>-th element succeeds; \<open>buf j\<close> is the byte of the caller's
  buffer at \<open>buf + j\<close>, or \<open>None\<close> where \<open>copy_from_user\<close> fails. The result is
  \<open>ret\<close> (\<open>None\<close> for 0), the final \<open>i\<close> and the queue.
\<close>

function write_loop ::
  "(nat \<Rightarrow> bool) \<Rightarrow> (nat \<Rightarrow> byte option) \<Rightarrow> 64 word \<Rightarrow> 64 word \<Rightarrow> queue_device
     \<Rightarrow> errno option \<times> 64 word \<times> queue_device" where
  "write_loop kmalloc buf count i q =
     (if i < count then
        if \<not> kmalloc (unat i) then (Some ENOMEM, i, q)
        else
          (case buf (unat i) of
             None \<Rightarrow> (Some EFAULT, i, q)
           | Some c \<Rightarrow>
               write_loop kmalloc buf count (i + 1)
                 (q\<lparr>queue := queue q @ [c], data_size := data_size q + 1\<rparr>))
      else (None, i, q))"
  by pat_completeness auto
termination
proof (relation "measure (\<lambda>(kmalloc, buf, count, i, q). unat count - unat i)")
  show "wf (measure (\<lambda>(kmalloc, buf, count, i, q). unat count - unat i))"
    by simp
next
  fix kmalloc :: "nat \<Rightarrow> bool" and buf :: "nat \<Rightarrow> byte option"
    and count i :: "64 word" and q :: queue_device and c :: byte
  assume "i < count"
  then have "unat i < unat count"
    by (simp add: word_less_nat_alt)
  moreover from \<open>i < count\<close> have "unat (i + 1) = Suc (unat i)"
    by unat_arith
  ultimately show "((kmalloc, buf, count, i + 1,
       q\<lparr>queue := queue q @ [c], data_size := data_size q + 1\<rparr>), kmalloc, buf, count, i, q)
     \<in> measure (\<lambda>(kmalloc, buf, count, i, q). unat count - unat i)"
    by simp
qed

text \<open>
  \<open>count + queue_dev->data_size > QUEUE_SIZE\<close> is computed in \<open>size_t\<close>: the \<open>int\<close> is
  sign-extended to 64 bits, the sum wraps, the comparison is unsigned. The function
  returns \<open>ret ? ret : i\<close>: the error if one was set, else the number of bytes appended.
\<close>

definition device_write ::
  "struct_file \<Rightarrow> (nat \<Rightarrow> byte option) \<Rightarrow> 64 word \<Rightarrow> (nat \<Rightarrow> bool) \<Rightarrow> driver
     \<Rightarrow> fault + ((errno + 64 word) \<times> driver)" where
  "device_write file buf count kmalloc st =
     (case deref st (private_data file) of
        None \<Rightarrow> Inl Bad_pointer
      | Some queue_dev \<Rightarrow>
          if count + scast (data_size queue_dev) > QUEUE_SIZE then Inr (Inl ENOSPC, st)
          else
            (case write_loop kmalloc buf count 0 queue_dev of
               (ret, i, q') \<Rightarrow>
                 Inr ((case ret of Some e \<Rightarrow> Inl e | None \<Rightarrow> Inr i),
                      assign (private_data file) q' st)))"

subsection \<open>device\_read\<close>

text \<open>
  The \<open>for\<close> loop of \<open>device_read\<close>, from index \<open>i\<close> on. \<open>ubuf j\<close> tells whether
  \<open>copy_to_user\<close> to \<open>buf + j\<close> succeeds; \<open>out\<close> collects the bytes delivered so far,
  in the order of their addresses. The loop is entered on \<open>data_size > 0\<close> alone, and
  \<open>copy_to_user\<close> is called before anything is unlinked: where it fails, the call ends
  with \<open>-EFAULT\<close> and the queue as it is, whether or not an element is linked. Where
  it succeeds with no element linked, \<open>list_first_entry\<close> has yielded no element (the
  byte copied out is not a queued byte, and \<open>list_del\<close> and \<open>kfree\<close> then work on the
  list head) and the model stops with a fault.
\<close>

function read_loop ::
  "(nat \<Rightarrow> bool) \<Rightarrow> 64 word \<Rightarrow> 64 word \<Rightarrow> byte list \<Rightarrow> queue_device
     \<Rightarrow> fault + (errno option \<times> 64 word \<times> byte list \<times> queue_device)" where
  "read_loop ubuf count i out q =
     (if i < count \<and> 0 <s data_size q then
        if \<not> ubuf (unat i) then Inr (Some EFAULT, i, out, q)
        else
          (case queue q of
             [] \<Rightarrow> Inl Empty_list_entry
           | c # rest \<Rightarrow>
               read_loop ubuf count (i + 1) (out @ [c])
                 (q\<lparr>queue := rest, data_size := data_size q - 1\<rparr>))
      else Inr (None, i, out, q))"
  by pat_completeness auto
termination
proof (relation "measure (\<lambda>(ubuf, count, i, out, q). unat count - unat i)")
  show "wf (measure (\<lambda>(ubuf, count, i, out, q). unat count - unat i))"
    by simp
next
  fix ubuf :: "nat \<Rightarrow> bool" and count i :: "64 word" and out rest :: "byte list"
    and q :: queue_device and c :: byte
  assume "i < count \<and> 0 <s data_size q"
  then have "i < count"
    by simp
  then have "unat i < unat count"
    by (simp add: word_less_nat_alt)
  moreover from \<open>i < count\<close> have "unat (i + 1) = Suc (unat i)"
    by unat_arith
  ultimately show "((ubuf, count, i + 1, out @ [c],
       q\<lparr>queue := rest, data_size := data_size q - 1\<rparr>), ubuf, count, i, out, q)
     \<in> measure (\<lambda>(ubuf, count, i, out, q). unat count - unat i)"
    by simp
qed

text \<open>
  The result is the return value \<open>ret ? ret : i\<close>, the bytes that reached the caller's
  buffer, and the new state.
\<close>

definition device_read ::
  "struct_file \<Rightarrow> (nat \<Rightarrow> bool) \<Rightarrow> 64 word \<Rightarrow> driver
     \<Rightarrow> fault + ((errno + 64 word) \<times> byte list \<times> driver)" where
  "device_read file ubuf count st =
     (case deref st (private_data file) of
        None \<Rightarrow> Inl Bad_pointer
      | Some queue_dev \<Rightarrow>
          (case read_loop ubuf count 0 [] queue_dev of
             Inl f \<Rightarrow> Inl f
           | Inr (ret, i, out, q') \<Rightarrow>
               Inr ((case ret of Some e \<Rightarrow> Inl e | None \<Rightarrow> Inr i), out,
                    assign (private_data file) q' st)))"

subsection \<open>device\_ioctl\<close>

text \<open>The arguments \<open>file\<close> and \<open>arg\<close> are not used by the function.\<close>

definition device_ioctl :: "32 word \<Rightarrow> driver \<Rightarrow> (errno + unit) \<times> driver" where
  "device_ioctl cmd st =
     (if cmd = 0 then (Inr (), st\<lparr>device_mode := DEFAULT_MODE\<rparr>)
      else if cmd = 1 then (Inr (), st\<lparr>device_mode := SINGLE_OPEN_MODE\<rparr>)
      else if cmd = 2 then (Inr (), st\<lparr>device_mode := MULTI_OPEN_MODE\<rparr>)
      else (Inl EINVAL, st))"

subsection \<open>The queue invariant and the callers of the claims\<close>

text \<open>
  The invariant of a queue: the counter equals the number of linked elements, and that
  number is between 0 and \<open>QUEUE_SIZE\<close>.
\<close>

definition queue_inv :: "queue_device \<Rightarrow> bool" where
  "queue_inv q \<longleftrightarrow> sint (data_size q) = int (length (queue q)) \<and> length (queue q) \<le> 1000"

text \<open>
  A caller's buffer that holds the bytes \<open>bs\<close> and is readable on exactly these
  addresses.
\<close>

definition user_buf :: "byte list \<Rightarrow> nat \<Rightarrow> byte option" where
  "user_buf bs j = (if j < length bs then Some (bs ! j) else None)"

text \<open>
  A caller that writes the buffers \<open>bss\<close> one after the other through one handle, each
  with its full length as \<open>count\<close>, while no allocation fails; the return values are
  collected. A fault of one call ends the run.
\<close>

fun write_all ::
  "struct_file \<Rightarrow> byte list list \<Rightarrow> driver \<Rightarrow> fault + ((errno + 64 word) list \<times> driver)" where
  "write_all file [] st = Inr ([], st)"
| "write_all file (bs # bss) st =
     (case device_write file (user_buf bs) (of_nat (length bs)) (\<lambda>j. True) st of
        Inl f \<Rightarrow> Inl f
      | Inr (r, st') \<Rightarrow>
          (case write_all file bss st' of
             Inl f \<Rightarrow> Inl f
           | Inr (rs, st'') \<Rightarrow> Inr (r # rs, st'')))"

text \<open>
  A caller that reads with the counts \<open>counts\<close> one after the other through one handle
  into writable buffers; the return values are collected and the delivered bytes are
  concatenated in the order of the calls.
\<close>

fun read_all ::
  "struct_file \<Rightarrow> 64 word list \<Rightarrow> driver
     \<Rightarrow> fault + ((errno + 64 word) list \<times> byte list \<times> driver)" where
  "read_all file [] st = Inr ([], [], st)"
| "read_all file (count # counts) st =
     (case device_read file (\<lambda>j. True) count st of
        Inl f \<Rightarrow> Inl f
      | Inr (r, out, st') \<Rightarrow>
          (case read_all file counts st' of
             Inl f \<Rightarrow> Inl f
           | Inr (rs, outs, st'') \<Rightarrow> Inr (r # rs, out @ outs, st'')))"

text \<open>What a caller sees of a read: the return value and the delivered bytes.\<close>

fun read_view ::
  "fault + ((errno + 64 word) \<times> byte list \<times> driver) \<Rightarrow> fault + ((errno + 64 word) \<times> byte list)" where
  "read_view (Inl f) = Inl f"
| "read_view (Inr (r, out, st)) = Inr (r, out)"

declare write_loop.simps [simp del]
declare read_loop.simps [simp del]

section \<open>Auxiliary facts\<close>

subsection \<open>Words\<close>

lemma sint_of_nat_32: "n < 2 ^ 31 \<Longrightarrow> sint (of_nat n :: 32 word) = int n"
  by (simp add: signed_of_nat signed_take_bit_int_eq_self)

lemma sless_of_nat_32: "n < 2 ^ 31 \<Longrightarrow> (0 <s (of_nat n :: 32 word)) \<longleftrightarrow> 0 < n"
  by (simp add: word_sless_alt sint_of_nat_32)

lemma queue_inv_of_nat:
  "queue_inv q \<longleftrightarrow> data_size q = of_nat (length (queue q)) \<and> length (queue q) \<le> 1000"
proof
  assume inv: "queue_inv q"
  then have "word_of_int (sint (data_size q)) = (word_of_int (int (length (queue q))) :: 32 word)"
    by (simp only: queue_inv_def)
  then have "data_size q = of_nat (length (queue q))"
    by simp
  with inv show "data_size q = of_nat (length (queue q)) \<and> length (queue q) \<le> 1000"
    by (simp add: queue_inv_def)
next
  assume a: "data_size q = of_nat (length (queue q)) \<and> length (queue q) \<le> 1000"
  then have "length (queue q) < 2 ^ 31"
    by simp
  then have "sint (of_nat (length (queue q)) :: 32 word) = int (length (queue q))"
    by (rule sint_of_nat_32)
  with a show "queue_inv q"
    by (simp add: queue_inv_def)
qed

lemma unat_scast_nonneg:
  assumes "0 \<le> sint (x :: 32 word)"
  shows "unat (scast x :: 64 word) = nat (sint x)"
proof -
  have "sint x < 2 ^ 31"
    using sint_lt [of x] by simp
  then have lt: "sint x < 2 ^ 64"
    by simp
  have "uint (scast x :: 64 word) = take_bit 64 (sint x)"
    unfolding scast_eq by (subst uint_word_of_int_eq) simp
  also have "\<dots> = sint x"
    using assms lt by (simp add: take_bit_int_eq_self)
  finally show ?thesis
    by (simp add: unat_eq_nat_uint)
qed

lemma overflow_check:
  assumes "0 \<le> sint (x :: 32 word)" and "count \<le> MAX_RW_COUNT"
  shows "count + scast x > QUEUE_SIZE \<longleftrightarrow> unat count + nat (sint x) > 1000"
proof -
  have lt: "sint x < 2 ^ 31"
    using sint_lt [of x] by simp
  have c: "unat count \<le> 0x7ffff000"
    using assms(2) by (simp add: word_le_nat_alt MAX_RW_COUNT_def)
  have s: "unat (scast x :: 64 word) = nat (sint x)"
    using assms(1) by (rule unat_scast_nonneg)
  have "unat count + unat (scast x :: 64 word) < 2 ^ 64"
    using c lt s assms(1) by simp
  then have "unat (count + scast x) = unat count + nat (sint x)"
    using s by (simp add: unat_add_lem [THEN iffD1])
  then show ?thesis
    by (simp add: word_less_nat_alt QUEUE_SIZE_def)
qed

subsection \<open>The loops\<close>

lemma unat_succ: "(i :: 64 word) < count \<Longrightarrow> unat (i + 1) = Suc (unat i)"
  by unat_arith

lemma write_loop_ok:
  assumes "\<forall>j. unat i \<le> j \<and> j < unat count \<longrightarrow> kmalloc j \<and> buf j \<noteq> None"
    and "i \<le> count"
  shows "write_loop kmalloc buf count i q =
    (None, count,
     q\<lparr>queue := queue q @ map (\<lambda>j. the (buf j)) [unat i..<unat count],
       data_size := data_size q + of_nat (unat count - unat i)\<rparr>)"
  using assms
proof (induction "unat count - unat i" arbitrary: i q)
  case 0
  then have "i = count"
    by (simp add: word_le_nat_alt word_unat_eq_iff)
  then show ?case
    by (simp add: write_loop.simps)
next
  case (Suc n)
  then have lt: "i < count"
    by (simp add: word_less_nat_alt)
  then have s: "unat (i + 1) = Suc (unat i)"
    by (rule unat_succ)
  from lt have ui: "unat i < unat count"
    by (simp add: word_less_nat_alt)
  with Suc.prems obtain c where c: "kmalloc (unat i)" "buf (unat i) = Some c"
    by auto
  have le: "i + 1 \<le> count"
    using s ui by (simp add: word_le_nat_alt)
  have n: "n = unat count - unat (i + 1)"
    using Suc.hyps(2) s by simp
  have all: "\<forall>j. unat (i + 1) \<le> j \<and> j < unat count \<longrightarrow> kmalloc j \<and> buf j \<noteq> None"
    using Suc.prems(1) s by simp
  have d: "unat count - unat i = Suc (unat count - Suc (unat i))"
    using ui by simp
  show ?case
    apply (subst write_loop.simps)
    apply (simp add: lt c Suc.hyps(1) [OF n all le] s upt_conv_Cons [OF ui])
    apply (simp add: d)
    done
qed

lemma write_loop_fail:
  assumes "unat i \<le> k" and "k < unat count"
    and "\<forall>j. unat i \<le> j \<and> j < k \<longrightarrow> kmalloc j \<and> buf j \<noteq> None"
    and "\<not> kmalloc k \<or> buf k = None"
  shows "write_loop kmalloc buf count i q =
    (Some (if kmalloc k then EFAULT else ENOMEM), of_nat k,
     q\<lparr>queue := queue q @ map (\<lambda>j. the (buf j)) [unat i..<k],
       data_size := data_size q + of_nat (k - unat i)\<rparr>)"
  using assms
proof (induction "k - unat i" arbitrary: i q)
  case 0
  then have k: "k = unat i"
    by simp
  then have lt: "i < count"
    using "0.prems"(2) by (simp add: word_less_nat_alt)
  show ?case
    using "0.prems"(4) by (subst write_loop.simps) (auto simp: lt k)
next
  case (Suc n)
  then have ui: "unat i < k"
    by simp
  then have lt: "i < count"
    using Suc.prems(2) by (simp add: word_less_nat_alt)
  then have s: "unat (i + 1) = Suc (unat i)"
    by (rule unat_succ)
  from ui Suc.prems obtain c where c: "kmalloc (unat i)" "buf (unat i) = Some c"
    by auto
  have n: "n = k - unat (i + 1)"
    using Suc.hyps(2) s by simp
  have le: "unat (i + 1) \<le> k"
    using s ui by simp
  have all: "\<forall>j. unat (i + 1) \<le> j \<and> j < k \<longrightarrow> kmalloc j \<and> buf j \<noteq> None"
    using Suc.prems(3) s by simp
  have d: "k - unat i = Suc (k - Suc (unat i))"
    using ui by simp
  show ?case
    apply (subst write_loop.simps)
    apply (simp add: lt c Suc.hyps(1) [OF n le Suc.prems(2) all Suc.prems(4)] s upt_conv_Cons [OF ui])
    apply (simp add: d)
    done
qed

lemma read_loop_ok:
  assumes "data_size q = of_nat (length (queue q))" and "length (queue q) < 2 ^ 31"
    and "i \<le> count"
    and "n = min (unat count - unat i) (length (queue q))"
    and "\<forall>j. unat i \<le> j \<and> j < unat i + n \<longrightarrow> ubuf j"
  shows "read_loop ubuf count i out q =
    Inr (None, i + of_nat n, out @ take n (queue q),
         q\<lparr>queue := drop n (queue q), data_size := of_nat (length (queue q) - n)\<rparr>)"
  using assms
proof (induction n arbitrary: i out q)
  case 0
  then have "unat count \<le> unat i \<or> queue q = []"
    by (auto simp: min_def split: if_splits)
  then have "\<not> (i < count \<and> 0 <s data_size q)"
    using "0.prems"(1) by (auto simp: word_less_nat_alt)
  then have "read_loop ubuf count i out q = Inr (None, i, out, q)"
    by (subst read_loop.simps) (simp only: if_False)
  then show ?case
    using "0.prems"(1) by simp
next
  case (Suc n)
  from Suc.prems(4) have ui: "unat i < unat count" and ne: "queue q \<noteq> []"
    by (auto simp: min_def split: if_splits)
  then obtain c rest where q: "queue q = c # rest"
    by (cases "queue q") auto
  from ui have lt: "i < count"
    by (simp add: word_less_nat_alt)
  then have s: "unat (i + 1) = Suc (unat i)"
    by (rule unat_succ)
  have pos: "0 <s data_size q"
    using Suc.prems(1,2) q by (simp only: sless_of_nat_32) simp
  have u: "ubuf (unat i)"
    using Suc.prems(5) by simp
  let ?q = "q\<lparr>queue := rest, data_size := data_size q - 1\<rparr>"
  have 1: "data_size ?q = of_nat (length (queue ?q))"
    using Suc.prems(1) q by simp
  have 2: "length (queue ?q) < 2 ^ 31"
    using Suc.prems(2) q by simp
  have 3: "i + 1 \<le> count"
    using s ui by (simp add: word_le_nat_alt)
  have "Suc n = min (unat count - unat i) (Suc (length rest))"
    using Suc.prems(4) q by simp
  then have 4: "n = min (unat count - unat (i + 1)) (length (queue ?q))"
    using s by simp
  have 5: "\<forall>j. unat (i + 1) \<le> j \<and> j < unat (i + 1) + n \<longrightarrow> ubuf j"
    using Suc.prems(5) s by simp
  show ?case
    apply (subst read_loop.simps)
    apply (simp add: lt pos q u Suc.IH [OF 1 2 3 4 5])
    done
qed

lemma read_loop_fail:
  assumes "data_size q = of_nat (length (queue q))" and "length (queue q) < 2 ^ 31"
    and "unat i \<le> k" and "k < unat count" and "k - unat i < length (queue q)"
    and "\<forall>j. unat i \<le> j \<and> j < k \<longrightarrow> ubuf j" and "\<not> ubuf k"
  shows "read_loop ubuf count i out q =
    Inr (Some EFAULT, of_nat k, out @ take (k - unat i) (queue q),
         q\<lparr>queue := drop (k - unat i) (queue q),
           data_size := of_nat (length (queue q) - (k - unat i))\<rparr>)"
  using assms
proof (induction "k - unat i" arbitrary: i out q)
  case 0
  then have k: "k = unat i"
    by simp
  then have lt: "i < count"
    using "0.prems"(4) by (simp add: word_less_nat_alt)
  from "0.prems"(5) obtain c rest where q: "queue q = c # rest"
    by (cases "queue q") auto
  have pos: "0 <s data_size q"
    using "0.prems"(1,2) q by (simp only: sless_of_nat_32) simp
  have "read_loop ubuf count i out q = Inr (Some EFAULT, i, out, q)"
    using "0.prems"(7) lt pos q k by (subst read_loop.simps) simp
  then show ?case
    using "0.prems"(1) k by simp
next
  case (Suc n)
  then have ui: "unat i < k"
    by simp
  then have lt: "i < count"
    using Suc.prems(4) by (simp add: word_less_nat_alt)
  then have s: "unat (i + 1) = Suc (unat i)"
    by (rule unat_succ)
  from Suc.prems(5) obtain c rest where q: "queue q = c # rest"
    by (cases "queue q") auto
  have pos: "0 <s data_size q"
    using Suc.prems(1,2) q by (simp only: sless_of_nat_32) simp
  have u: "ubuf (unat i)"
    using Suc.prems(6) ui by simp
  let ?q = "q\<lparr>queue := rest, data_size := data_size q - 1\<rparr>"
  have 0: "n = k - unat (i + 1)"
    using Suc.hyps(2) s by simp
  have 1: "data_size ?q = of_nat (length (queue ?q))"
    using Suc.prems(1) q by simp
  have 2: "length (queue ?q) < 2 ^ 31"
    using Suc.prems(2) q by simp
  have 3: "unat (i + 1) \<le> k"
    using s ui by simp
  have 5: "k - unat (i + 1) < length (queue ?q)"
    using Suc.prems(5) q s ui by simp
  have 6: "\<forall>j. unat (i + 1) \<le> j \<and> j < k \<longrightarrow> ubuf j"
    using Suc.prems(6) s by simp
  have d: "k - unat i = Suc (k - Suc (unat i))"
    using ui by simp
  show ?case
    apply (subst read_loop.simps)
    apply (simp add: lt pos q u Suc.hyps(1) [OF 0 1 2 3 Suc.prems(4) 5 6 Suc.prems(7)] s)
    apply (simp add: d)
    done
qed

subsection \<open>The state\<close>

lemma deref_assign_same: "deref st p = Some q \<Longrightarrow> deref (assign p q' st) p = Some q'"
  by (cases p) simp_all

lemma deref_assign_other: "p \<noteq> p' \<Longrightarrow> deref (assign p q st) p' = deref st p'"
  by (cases p; cases p') simp_all

lemma assign_deref_id: "deref st p = Some q \<Longrightarrow> assign p q st = st"
  by (cases p) (simp_all add: map_upd_triv)

lemma assign_assign: "assign p q2 (assign p q1 st) = assign p q2 st"
  by (cases p) simp_all

lemma queue_inv_nonneg: "queue_inv q \<Longrightarrow> 0 \<le> sint (data_size q)"
  by (simp add: queue_inv_def)

lemma no_overflow:
  assumes "0 \<le> sint (data_size q)" and "count \<le> MAX_RW_COUNT"
    and "unat count + nat (sint (data_size q)) \<le> 1000"
  shows "\<not> count + scast (data_size q) > QUEUE_SIZE"
  using assms by (simp add: overflow_check)

lemma small_count: "unat (count :: 64 word) \<le> 1000 \<Longrightarrow> count \<le> MAX_RW_COUNT"
  by (simp add: word_le_nat_alt MAX_RW_COUNT_def)

subsection \<open>Single calls and runs of calls\<close>

lemma write_loop_shape:
  assumes "i \<le> count" and "write_loop kmalloc buf count i q = (ret, i', q')"
  shows "i \<le> i' \<and> i' \<le> count \<and> ret \<noteq> Some ENOSPC \<and> ret \<noteq> Some EBUSY \<and> ret \<noteq> Some EINVAL \<and>
    (\<exists>bs. length bs = unat i' - unat i \<and> queue q' = queue q @ bs \<and>
       data_size q' = data_size q + of_nat (length bs))"
  using assms
proof (induction kmalloc buf count i q rule: write_loop.induct)
  case (1 kmalloc buf count i q)
  show ?case
  proof (cases "i < count \<and> kmalloc (unat i) \<and> buf (unat i) \<noteq> None")
    case False
    then have "ret \<in> {None, Some ENOMEM, Some EFAULT} \<and> i' = i \<and> q' = q"
      using "1.prems"(2) by (subst (asm) write_loop.simps) (auto split: if_splits option.splits)
    then show ?thesis
      using "1.prems"(1) by auto
  next
    case True
    then obtain c where c: "buf (unat i) = Some c"
      by auto
    from True have lt: "i < count"
      by simp
    then have s: "unat (i + 1) = Suc (unat i)"
      by (rule unat_succ)
    have ui: "unat i < unat count"
      using lt by (simp add: word_less_nat_alt)
    have le: "i + 1 \<le> count"
      using s ui by (simp add: word_le_nat_alt)
    let ?q = "q\<lparr>queue := queue q @ [c], data_size := data_size q + 1\<rparr>"
    have rec: "write_loop kmalloc buf count (i + 1) ?q = (ret, i', q')"
      using "1.prems"(2) True c by (subst (asm) write_loop.simps) simp
    from "1.IH" [OF lt _ c le rec] True
    obtain bs where ih: "i + 1 \<le> i'" "i' \<le> count" "ret \<noteq> Some ENOSPC" "ret \<noteq> Some EBUSY"
      "ret \<noteq> Some EINVAL" "length bs = unat i' - unat (i + 1)"
      "queue q' = queue ?q @ bs" "data_size q' = data_size ?q + of_nat (length bs)"
      by auto
    have ui': "Suc (unat i) \<le> unat i'"
      using ih(1) s by (simp add: word_le_nat_alt)
    then have "i \<le> i'"
      by (simp add: word_le_nat_alt)
    moreover have "length (c # bs) = unat i' - unat i"
      using ih(6) s ui' by simp
    moreover have "queue q' = queue q @ (c # bs)"
      using ih(7) by simp
    moreover have "data_size q' = data_size q + of_nat (length (c # bs))"
      using ih(8) by simp
    ultimately show ?thesis
      using ih(2-5) by blast
  qed
qed

lemma device_read_ok:
  assumes "deref st (private_data file) = Some q" and "queue_inv q"
    and "n = min (unat count) (length (queue q))"
    and "\<forall>j<n. ubuf j"
  shows "device_read file ubuf count st =
    Inr (Inr (of_nat n), take n (queue q),
         assign (private_data file)
           (q\<lparr>queue := drop n (queue q), data_size := of_nat (length (queue q) - n)\<rparr>) st)"
proof -
  from assms(2) have inv: "data_size q = of_nat (length (queue q))" "length (queue q) < 2 ^ 31"
    by (simp_all add: queue_inv_of_nat)
  have "read_loop ubuf count 0 [] q =
    Inr (None, 0 + of_nat n, [] @ take n (queue q),
         q\<lparr>queue := drop n (queue q), data_size := of_nat (length (queue q) - n)\<rparr>)"
    using inv assms(3,4) by (intro read_loop_ok) simp_all
  then show ?thesis
    using assms(1) by (simp add: device_read_def)
qed

lemma map_user_buf: "map (\<lambda>j. the (user_buf bs j)) [0..<length bs] = bs"
  by (rule nth_equalityI) (simp_all add: user_buf_def)

lemma device_write_ok:
  assumes "deref st (private_data file) = Some q" and "queue_inv q"
    and "length (queue q) + length bs \<le> 1000"
  shows "device_write file (user_buf bs) (of_nat (length bs)) (\<lambda>j. True) st =
    Inr (Inr (of_nat (length bs)),
         assign (private_data file)
           (q\<lparr>queue := queue q @ bs, data_size := of_nat (length (queue q) + length bs)\<rparr>) st)"
proof -
  let ?count = "of_nat (length bs) :: 64 word"
  from assms(2) have inv: "data_size q = of_nat (length (queue q))"
    by (simp add: queue_inv_of_nat)
  from assms(2) have sint: "sint (data_size q) = int (length (queue q))"
    by (simp add: queue_inv_def)
  have u: "unat ?count = length bs"
    using assms(3) by (simp add: unat_of_nat)
  then have "?count \<le> MAX_RW_COUNT"
    using assms(3) by (intro small_count) simp
  then have no: "\<not> ?count + scast (data_size q) > QUEUE_SIZE"
    using assms(3) sint u by (intro no_overflow) simp_all
  have "write_loop (\<lambda>j. True) (user_buf bs) ?count 0 q =
    (None, ?count,
     q\<lparr>queue := queue q @ map (\<lambda>j. the (user_buf bs j)) [unat (0 :: 64 word)..<unat ?count],
       data_size := data_size q + of_nat (unat ?count - unat (0 :: 64 word))\<rparr>)"
    by (intro write_loop_ok) (simp_all add: u user_buf_def)
  then have "write_loop (\<lambda>j. True) (user_buf bs) ?count 0 q =
    (None, ?count,
     q\<lparr>queue := queue q @ bs, data_size := of_nat (length (queue q) + length bs)\<rparr>)"
    by (simp add: u map_user_buf inv)
  then show ?thesis
    using assms(1) no by (simp add: device_write_def)
qed

lemma queue_inv_mk:
  "n = length xs \<Longrightarrow> n \<le> 1000 \<Longrightarrow> queue_inv (q\<lparr>queue := xs, data_size := of_nat n\<rparr>)"
  by (simp add: queue_inv_of_nat)

lemma write_all_ok:
  assumes "deref st (private_data file) = Some q" and "queue_inv q"
    and "length (queue q) + length (concat bss) \<le> 1000"
  shows "write_all file bss st =
    Inr (map (\<lambda>bs. Inr (of_nat (length bs))) bss,
         assign (private_data file)
           (q\<lparr>queue := queue q @ concat bss,
              data_size := of_nat (length (queue q) + length (concat bss))\<rparr>) st)"
  using assms
proof (induction bss arbitrary: st q)
  case Nil
  then have "q\<lparr>queue := queue q, data_size := of_nat (length (queue q))\<rparr> = q"
    by (simp add: queue_inv_of_nat)
  then show ?case
    using Nil.prems(1) by (simp add: assign_deref_id)
next
  case (Cons bs bss)
  let ?q = "q\<lparr>queue := queue q @ bs, data_size := of_nat (length (queue q) + length bs)\<rparr>"
  let ?st = "assign (private_data file) ?q st"
  have w: "device_write file (user_buf bs) (of_nat (length bs)) (\<lambda>j. True) st =
      Inr (Inr (of_nat (length bs)), ?st)"
    using Cons.prems by (intro device_write_ok) simp_all
  have 1: "deref ?st (private_data file) = Some ?q"
    using Cons.prems(1) by (rule deref_assign_same)
  have 2: "queue_inv ?q"
    using Cons.prems(3) by (intro queue_inv_mk) simp_all
  have 3: "length (queue ?q) + length (concat bss) \<le> 1000"
    using Cons.prems(3) by simp
  have ih: "write_all file bss ?st =
    Inr (map (\<lambda>bs. Inr (of_nat (length bs))) bss,
         assign (private_data file)
           (?q\<lparr>queue := queue ?q @ concat bss,
              data_size := of_nat (length (queue ?q) + length (concat bss))\<rparr>) ?st)"
    using 1 2 3 by (rule Cons.IH)
  show ?case
    apply (simp only: write_all.simps w ih sum.case prod.case)
    apply (simp add: assign_assign add.assoc)
    done
qed

lemma read_all_ok:
  assumes "deref st (private_data file) = Some q" and "queue_inv q"
    and "n = sum_list (map unat counts)" and "n \<le> length (queue q)"
  shows "read_all file counts st =
    Inr (map Inr counts, take n (queue q),
         assign (private_data file)
           (q\<lparr>queue := drop n (queue q), data_size := of_nat (length (queue q) - n)\<rparr>) st)"
  using assms
proof (induction counts arbitrary: st q n)
  case Nil
  then have "q\<lparr>queue := queue q, data_size := of_nat (length (queue q))\<rparr> = q"
    by (simp add: queue_inv_of_nat)
  then show ?case
    using Nil.prems(1,3) by (simp add: assign_deref_id)
next
  case (Cons c counts)
  let ?m = "unat c"
  let ?q = "q\<lparr>queue := drop ?m (queue q), data_size := of_nat (length (queue q) - ?m)\<rparr>"
  let ?st = "assign (private_data file) ?q st"
  have m: "?m = min (unat c) (length (queue q))"
    using Cons.prems(3,4) by simp
  have r: "device_read file (\<lambda>j. True) c st = Inr (Inr (of_nat ?m), take ?m (queue q), ?st)"
    using Cons.prems(1,2) m by (intro device_read_ok) simp_all
  have 1: "deref ?st (private_data file) = Some ?q"
    using Cons.prems(1) by (rule deref_assign_same)
  from Cons.prems(2) have "length (queue q) \<le> 1000"
    by (simp add: queue_inv_def)
  then have 2: "queue_inv ?q"
    by (intro queue_inv_mk) simp_all
  have 3: "n - ?m = sum_list (map unat counts)"
    using Cons.prems(3) by simp
  have 4: "n - ?m \<le> length (queue ?q)"
    using Cons.prems(3,4) by simp
  have n: "n = ?m + (n - ?m)"
    using Cons.prems(3) by simp
  have t: "take n (queue q) = take ?m (queue q) @ take (n - ?m) (drop ?m (queue q))"
    by (subst n) (rule take_add)
  have ih: "read_all file counts ?st =
    Inr (map Inr counts, take (n - ?m) (queue ?q),
         assign (private_data file)
           (?q\<lparr>queue := drop (n - ?m) (queue ?q),
              data_size := of_nat (length (queue ?q) - (n - ?m))\<rparr>) ?st)"
    using 1 2 3 4 by (rule Cons.IH)
  have mn: "?m \<le> n"
    using Cons.prems(3) by simp
  show ?case
    apply (simp only: read_all.simps r ih sum.case prod.case)
    apply (simp add: assign_assign t mn)
    done
qed

subsection \<open>Opening and closing\<close>

lemma release_loop_empty: "release_loop xs = []"
  by (induction xs) simp_all

lemma device_open_single:
  "device_mode st = SINGLE_OPEN_MODE \<Longrightarrow>
   device_open kzalloc file st =
     (if single_open_lock st then (Inl EBUSY, file, st)
      else (Inr (), file\<lparr>private_data := Addr_default_queue\<rparr>, st\<lparr>single_open_lock := True\<rparr>))"
  by (simp add: device_open_def SINGLE_OPEN_MODE_def MULTI_OPEN_MODE_def)

lemma device_open_multi:
  "device_mode st = MULTI_OPEN_MODE \<Longrightarrow>
   device_open (Some a) file st =
     (Inr (), file\<lparr>private_data := Addr_kmem a\<rparr>,
      st\<lparr>kmem := (kmem st)(a \<mapsto> \<lparr>queue = [], data_size = 0\<rparr>)\<rparr>)"
  by (simp add: device_open_def SINGLE_OPEN_MODE_def MULTI_OPEN_MODE_def)

lemma device_open_multi_facts:
  assumes "device_mode st = MULTI_OPEN_MODE"
    and "device_open (Some a) fileA0 st = (rA, fileA, st1)"
  shows "rA = Inr ()" "private_data fileA = Addr_kmem a"
    "deref st1 (private_data fileA) = Some \<lparr>queue = [], data_size = 0\<rparr>"
    "st1 = st\<lparr>kmem := (kmem st)(a \<mapsto> \<lparr>queue = [], data_size = 0\<rparr>)\<rparr>"
proof -
  from assms(2) have e: "(Inr (), fileA0\<lparr>private_data := Addr_kmem a\<rparr>,
      st\<lparr>kmem := (kmem st)(a \<mapsto> \<lparr>queue = [], data_size = 0\<rparr>)\<rparr>) = (rA, fileA, st1)"
    by (simp only: device_open_multi [OF assms(1)])
  then show "rA = Inr ()"
    by simp
  from e have f: "fileA = fileA0\<lparr>private_data := Addr_kmem a\<rparr>"
    by simp
  then show "private_data fileA = Addr_kmem a"
    by simp
  from e show s: "st1 = st\<lparr>kmem := (kmem st)(a \<mapsto> \<lparr>queue = [], data_size = 0\<rparr>)\<rparr>"
    by simp
  show "deref st1 (private_data fileA) = Some \<lparr>queue = [], data_size = 0\<rparr>"
    by (simp add: f s)
qed

subsection \<open>What a call leaves alone\<close>

lemma read_view_cong:
  assumes "deref s' (private_data file) = deref s (private_data file)"
  shows "read_view (device_read file ubuf count s') = read_view (device_read file ubuf count s)"
  using assms by (auto simp: device_read_def split: option.splits sum.splits)

lemma device_write_other:
  assumes "device_write file buf count kmalloc s = Inr (r, s')" and "p \<noteq> private_data file"
  shows "deref s' p = deref s p"
  using assms
  by (auto simp: device_write_def deref_assign_other split: option.splits if_splits prod.splits)

subsection \<open>The invariant along the calls\<close>

text \<open>
  \<open>device_write\<close> and \<open>device_read\<close> keep the invariant of the queue on every path,
  the error paths included. \<open>device_release\<close> outside \<open>MULTI_OPEN_MODE\<close> empties the
  list and leaves \<open>data_size\<close> as it was, so the invariant is lost at the close of a
  handle whose queue holds bytes.
\<close>

lemma device_release_clears_list_only:
  assumes "device_mode st \<noteq> MULTI_OPEN_MODE" and "deref st (private_data file) = Some q"
  shows "\<exists>st'. device_release file st = Inr st'
    \<and> deref st' (private_data file) = Some (q\<lparr>queue := []\<rparr>)"
proof -
  let ?st1 = "if device_mode st = SINGLE_OPEN_MODE then st\<lparr>single_open_lock := False\<rparr> else st"
  have m: "device_mode ?st1 \<noteq> MULTI_OPEN_MODE"
    using assms(1) by simp
  have d: "deref ?st1 (private_data file) = Some q"
    using assms(2) by (cases "private_data file") simp_all
  let ?st2 = "assign (private_data file) (q\<lparr>queue := []\<rparr>) ?st1"
  have m2: "device_mode ?st2 \<noteq> MULTI_OPEN_MODE"
    using m by (cases "private_data file") simp_all
  have "device_release file st = Inr ?st2"
    using d m2 by (simp add: device_release_def Let_def release_loop_empty)
  moreover have "deref ?st2 (private_data file) = Some (q\<lparr>queue := []\<rparr>)"
    using d by (rule deref_assign_same)
  ultimately show ?thesis
    by blast
qed

lemma device_write_queue_inv:
  assumes "deref st (private_data file) = Some q" and "queue_inv q"
    and "count \<le> MAX_RW_COUNT"
    and "device_write file buf count kmalloc st = Inr (r, st')"
  shows "\<exists>q'. deref st' (private_data file) = Some q' \<and> queue_inv q'"
proof (cases "count + scast (data_size q) > QUEUE_SIZE")
  case True
  then have "st' = st"
    using assms(1,4) by (simp add: device_write_def)
  then show ?thesis
    using assms(1,2) by simp
next
  case False
  obtain ret i q' where w: "write_loop kmalloc buf count 0 q = (ret, i, q')"
    by (cases "write_loop kmalloc buf count 0 q") auto
  then have st': "st' = assign (private_data file) q' st"
    using assms(1,4) False by (simp add: device_write_def)
  from write_loop_shape [OF _ w] obtain bs where bs: "i \<le> count"
    "length bs = unat i - unat (0 :: 64 word)" "queue q' = queue q @ bs"
    "data_size q' = data_size q + of_nat (length bs)"
    by auto
  from assms(2) have inv: "data_size q = of_nat (length (queue q))"
    "sint (data_size q) = int (length (queue q))"
    by (simp add: queue_inv_of_nat, simp add: queue_inv_def)
  have "unat count + nat (sint (data_size q)) \<le> 1000"
    using False assms(3) inv(2) by (simp add: overflow_check)
  moreover have "length bs \<le> unat count"
    using bs(1,2) by (simp add: word_le_nat_alt)
  ultimately have "length (queue q') \<le> 1000"
    using bs(3) inv(2) by simp
  moreover have "data_size q' = of_nat (length (queue q'))"
    using bs(3,4) inv(1) by simp
  ultimately have "queue_inv q'"
    by (simp add: queue_inv_of_nat)
  moreover have "deref st' (private_data file) = Some q'"
    unfolding st' using assms(1) by (rule deref_assign_same)
  ultimately show ?thesis
    by blast
qed

lemma read_loop_queue_inv:
  assumes "queue_inv q"
  shows "\<exists>ret i' out' q'. read_loop ubuf count i out q = Inr (ret, i', out', q') \<and> queue_inv q'"
  using assms
proof (induction ubuf count i out q rule: read_loop.induct)
  case (1 ubuf count i out q)
  show ?case
  proof (cases "i < count \<and> 0 <s data_size q")
    case False
    then have "read_loop ubuf count i out q = Inr (None, i, out, q)"
      by (subst read_loop.simps) (simp only: if_False)
    then show ?thesis
      using "1.prems" by blast
  next
    case True
    from "1.prems" have inv: "data_size q = of_nat (length (queue q))" "length (queue q) \<le> 1000"
      by (simp_all add: queue_inv_of_nat)
    have "queue q \<noteq> []"
    proof
      assume "queue q = []"
      then have "data_size q = 0"
        using inv(1) by simp
      then show False
        using True by simp
    qed
    then obtain c rest where q: "queue q = c # rest"
      by (cases "queue q") auto
    show ?thesis
    proof (cases "ubuf (unat i)")
      case False
      then have "read_loop ubuf count i out q = Inr (Some EFAULT, i, out, q)"
        using True q by (subst read_loop.simps) simp
      then show ?thesis
        using "1.prems" by blast
    next
      case u: True
      let ?q = "q\<lparr>queue := rest, data_size := data_size q - 1\<rparr>"
      have nu: "\<not> \<not> ubuf (unat i)"
        using u by simp
      have "queue_inv ?q"
        using inv q by (simp add: queue_inv_of_nat)
      with "1.IH" [OF True nu q]
      obtain ret i' out' q' where
        "read_loop ubuf count (i + 1) (out @ [c]) ?q = Inr (ret, i', out', q')" "queue_inv q'"
        by blast
      moreover have "read_loop ubuf count i out q = read_loop ubuf count (i + 1) (out @ [c]) ?q"
        using True q u by (subst read_loop.simps) simp
      ultimately show ?thesis
        by simp
    qed
  qed
qed

lemma device_read_queue_inv:
  assumes "deref st (private_data file) = Some q" and "queue_inv q"
  shows "\<exists>r out st' q'. device_read file ubuf count st = Inr (r, out, st')
    \<and> deref st' (private_data file) = Some q' \<and> queue_inv q'"
proof -
  from read_loop_queue_inv [OF assms(2)]
  obtain ret i' out' q' where
    r: "read_loop ubuf count 0 [] q = Inr (ret, i', out', q')" and inv: "queue_inv q'"
    by blast
  have "device_read file ubuf count st =
      Inr ((case ret of Some e \<Rightarrow> Inl e | None \<Rightarrow> Inr i'), out', assign (private_data file) q' st)"
    using assms(1) r by (simp add: device_read_def)
  moreover have "deref (assign (private_data file) q' st) (private_data file) = Some q'"
    using assms(1) by (rule deref_assign_same)
  ultimately show ?thesis
    using inv by blast
qed

text \<open>
  While the invariant holds, a read whose deliveries succeed takes \<open>min count length\<close>
  bytes from the head, and a read on the empty queue returns 0 and changes nothing.
\<close>

lemma device_read_min:
  assumes "deref st (private_data file) = Some q" and "queue_inv q"
    and "n = min (unat count) (length (queue q))"
    and "\<forall>j<n. ubuf j"
  shows "device_read file ubuf count st =
      Inr (Inr (of_nat n), take n (queue q),
           assign (private_data file)
             (q\<lparr>queue := drop n (queue q), data_size := of_nat (length (queue q) - n)\<rparr>) st)
    \<and> (queue q = [] \<longrightarrow> device_read file ubuf count st = Inr (Inr 0, [], st))"
proof -
  have main: "device_read file ubuf count st =
      Inr (Inr (of_nat n), take n (queue q),
           assign (private_data file)
             (q\<lparr>queue := drop n (queue q), data_size := of_nat (length (queue q) - n)\<rparr>) st)"
    using assms by (rule device_read_ok)
  have "device_read file ubuf count st = Inr (Inr 0, [], st)" if e: "queue q = []"
  proof -
    from e assms(2) have "q\<lparr>queue := [], data_size := 0\<rparr> = q"
      by (simp add: queue_inv_of_nat)
    then show ?thesis
      using main e assms(1,3) by (simp add: assign_deref_id)
  qed
  with main show ?thesis
    by simp
qed

text \<open>
  Without the bound on \<open>count\<close> the sum in the capacity check wraps around: a count
  of \<open>2 ^ 64 - 1\<close> on a queue holding one byte passes the check.
\<close>

lemma capacity_check_wraps:
  "\<not> (0xFFFFFFFFFFFFFFFF :: 64 word) + scast (1 :: 32 word) > QUEUE_SIZE"
  by (simp add: QUEUE_SIZE_def)

section \<open>The claims\<close>

text \<open>
  Claim C1. A handle is bound to a queue that is empty; a caller writes the buffers
  \<open>bss\<close>, of at most 1000 bytes in total, one call after the other; then reads with
  counts that add up to the number of bytes written are issued through a handle bound to
  the same queue. Every write returns the length of its buffer, every read returns its
  count, and the bytes delivered by the reads, taken together, are exactly the bytes
  written, in the order they were written. The queue is empty again afterwards.
\<close>

theorem writes_then_reads_fifo:
  assumes "deref st (private_data file) = Some \<lparr>queue = [], data_size = 0\<rparr>"
    and "private_data file' = private_data file"
    and "length (concat bss) \<le> 1000"
    and "sum_list (map unat counts) = length (concat bss)"
  shows "\<exists>st'. write_all file bss st = Inr (map (\<lambda>bs. Inr (of_nat (length bs))) bss, st')
           \<and> read_all file' counts st' = Inr (map Inr counts, concat bss, st)"
proof -
  let ?q0 = "\<lparr>queue = [], data_size = 0\<rparr> :: queue_device"
  let ?q1 = "\<lparr>queue = concat bss, data_size = of_nat (length (concat bss))\<rparr> :: queue_device"
  let ?st1 = "assign (private_data file) ?q1 st"
  have inv0: "queue_inv ?q0"
    by (simp add: queue_inv_def)
  have w: "write_all file bss st = Inr (map (\<lambda>bs. Inr (of_nat (length bs))) bss, ?st1)"
    using write_all_ok [OF assms(1) inv0, of bss] assms(3) by simp
  have 1: "deref ?st1 (private_data file') = Some ?q1"
    using assms(1,2) by (simp add: deref_assign_same)
  have 2: "queue_inv ?q1"
    using assms(3) by (simp add: queue_inv_of_nat)
  have "read_all file' counts ?st1 =
    Inr (map Inr counts, take (length (concat bss)) (queue ?q1),
         assign (private_data file')
           (?q1\<lparr>queue := drop (length (concat bss)) (queue ?q1),
              data_size := of_nat (length (queue ?q1) - length (concat bss))\<rparr>) ?st1)"
    using 1 2 assms(4) by (intro read_all_ok) simp_all
  then have "read_all file' counts ?st1 = Inr (map Inr counts, concat bss, st)"
    using assms(1,2) by (simp add: assign_assign assign_deref_id)
  with w show ?thesis
    by blast
qed

theorem writes_then_reads_fifo_witness:
  "\<exists>st'. write_all \<lparr>private_data = Addr_default_queue\<rparr> [[1, 2], [3]] queue_init
          = Inr ([Inr 2, Inr 1], st')
     \<and> read_all \<lparr>private_data = Addr_default_queue\<rparr> [1, 2] st'
          = Inr ([Inr 1, Inr 2], [1, 2, 3], queue_init)"
  using writes_then_reads_fifo [of queue_init "\<lparr>private_data = Addr_default_queue\<rparr>"
      "\<lparr>private_data = Addr_default_queue\<rparr>" "[[1, 2], [3]]" "[1, 2]"]
  by (simp add: queue_init_def)

text \<open>
  Claim C2. Let the counter of the bound queue be non-negative and the count be one the
  VFS layer passes on. Then \<open>device_write\<close> returns \<open>-ENOSPC\<close> exactly when the
  counter plus the count exceeds 1000, and in that case the whole driver state, the
  queue's elements and counter included, is the one before the call.
\<close>

theorem write_overflow_exactly:
  assumes "deref st (private_data file) = Some q"
    and "0 \<le> sint (data_size q)"
    and "count \<le> MAX_RW_COUNT"
  shows "((\<exists>st'. device_write file buf count kmalloc st = Inr (Inl ENOSPC, st'))
           \<longleftrightarrow> 1000 < unat count + nat (sint (data_size q)))
         \<and> (1000 < unat count + nat (sint (data_size q))
           \<longrightarrow> device_write file buf count kmalloc st = Inr (Inl ENOSPC, st))"
proof (cases "1000 < unat count + nat (sint (data_size q))")
  case True
  then have "count + scast (data_size q) > QUEUE_SIZE"
    using assms(2,3) by (simp add: overflow_check)
  then have "device_write file buf count kmalloc st = Inr (Inl ENOSPC, st)"
    using assms(1) by (simp add: device_write_def)
  with True show ?thesis
    by simp
next
  case False
  then have no: "\<not> count + scast (data_size q) > QUEUE_SIZE"
    using assms(2,3) by (simp add: overflow_check)
  obtain ret i q' where w: "write_loop kmalloc buf count 0 q = (ret, i, q')"
    by (cases "write_loop kmalloc buf count 0 q") auto
  have "ret \<noteq> Some ENOSPC"
    using write_loop_shape [OF _ w] by simp
  then have "\<not> (\<exists>st'. device_write file buf count kmalloc st = Inr (Inl ENOSPC, st'))"
    using assms(1) no w by (auto simp: device_write_def split: option.splits)
  with False show ?thesis
    by simp
qed

theorem write_overflow_exactly_witness:
  "(\<exists>st'. device_write \<lparr>private_data = Addr_default_queue\<rparr> (user_buf [7, 8]) 2 (\<lambda>j. True)
       (queue_init\<lparr>default_queue := \<lparr>queue = replicate 999 0, data_size = 999\<rparr>\<rparr>)
     = Inr (Inl ENOSPC, st'))
   \<and> device_write \<lparr>private_data = Addr_default_queue\<rparr> (user_buf [7, 8]) 2 (\<lambda>j. True)
       (queue_init\<lparr>default_queue := \<lparr>queue = replicate 999 0, data_size = 999\<rparr>\<rparr>)
     = Inr (Inl ENOSPC, queue_init\<lparr>default_queue := \<lparr>queue = replicate 999 0, data_size = 999\<rparr>\<rparr>)
   \<and> \<not> (\<exists>st'. device_write \<lparr>private_data = Addr_default_queue\<rparr> (user_buf [7, 8]) 2 (\<lambda>j. True)
       (queue_init\<lparr>default_queue := \<lparr>queue = replicate 998 0, data_size = 998\<rparr>\<rparr>)
     = Inr (Inl ENOSPC, st'))"
  using write_overflow_exactly [of "queue_init\<lparr>default_queue := \<lparr>queue = replicate 999 0, data_size = 999\<rparr>\<rparr>"
      "\<lparr>private_data = Addr_default_queue\<rparr>" "\<lparr>queue = replicate 999 0, data_size = 999\<rparr>" 2
      "user_buf [7, 8]" "\<lambda>j. True"]
    write_overflow_exactly [of "queue_init\<lparr>default_queue := \<lparr>queue = replicate 998 0, data_size = 998\<rparr>\<rparr>"
      "\<lparr>private_data = Addr_default_queue\<rparr>" "\<lparr>queue = replicate 998 0, data_size = 998\<rparr>" 2
      "user_buf [7, 8]" "\<lambda>j. True"]
  by (simp add: MAX_RW_COUNT_def)

text \<open>
  Claim C3. The claim says that what a close does is fixed by the mode at open time.
  \<open>device_release\<close> reads \<open>device_mode\<close> when it runs. Run from the initial state:
  \<open>ioctl(1)\<close>, an open that takes the mutex, \<open>ioctl(0)\<close>, the close of that handle,
  \<open>ioctl(1)\<close>, an open. The close does not unlock the mutex, and the last open
  returns \<open>-EBUSY\<close> although no handle is open.
\<close>

theorem close_after_mode_change_keeps_lock:
  "device_ioctl 1 queue_init = (Inr (), queue_init\<lparr>device_mode := SINGLE_OPEN_MODE\<rparr>)
   \<and> device_open None \<lparr>private_data = NULL\<rparr> (queue_init\<lparr>device_mode := SINGLE_OPEN_MODE\<rparr>)
     = (Inr (), \<lparr>private_data = Addr_default_queue\<rparr>,
        queue_init\<lparr>device_mode := SINGLE_OPEN_MODE, single_open_lock := True\<rparr>)
   \<and> device_ioctl 0 (queue_init\<lparr>device_mode := SINGLE_OPEN_MODE, single_open_lock := True\<rparr>)
     = (Inr (), queue_init\<lparr>device_mode := DEFAULT_MODE, single_open_lock := True\<rparr>)
   \<and> device_release \<lparr>private_data = Addr_default_queue\<rparr>
       (queue_init\<lparr>device_mode := DEFAULT_MODE, single_open_lock := True\<rparr>)
     = Inr (queue_init\<lparr>device_mode := DEFAULT_MODE, single_open_lock := True\<rparr>)
   \<and> device_ioctl 1 (queue_init\<lparr>device_mode := DEFAULT_MODE, single_open_lock := True\<rparr>)
     = (Inr (), queue_init\<lparr>device_mode := SINGLE_OPEN_MODE, single_open_lock := True\<rparr>)
   \<and> device_open None \<lparr>private_data = NULL\<rparr>
       (queue_init\<lparr>device_mode := SINGLE_OPEN_MODE, single_open_lock := True\<rparr>)
     = (Inl EBUSY, \<lparr>private_data = NULL\<rparr>,
        queue_init\<lparr>device_mode := SINGLE_OPEN_MODE, single_open_lock := True\<rparr>)"
  by (simp add: device_ioctl_def device_open_def device_release_def queue_init_def
      DEFAULT_MODE_def SINGLE_OPEN_MODE_def MULTI_OPEN_MODE_def)

text \<open>
  The other direction of the same dependence: a handle opened in shared mode and closed
  after \<open>ioctl(2)\<close> passes the address of the static \<open>default_queue\<close> to \<open>kfree\<close>.
\<close>

lemma close_after_switch_to_multi_frees_static_queue:
  "device_open None \<lparr>private_data = NULL\<rparr> queue_init
     = (Inr (), \<lparr>private_data = Addr_default_queue\<rparr>, queue_init)
   \<and> device_ioctl 2 queue_init = (Inr (), queue_init\<lparr>device_mode := MULTI_OPEN_MODE\<rparr>)
   \<and> device_release \<lparr>private_data = Addr_default_queue\<rparr>
       (queue_init\<lparr>device_mode := MULTI_OPEN_MODE\<rparr>) = Inl Bad_kfree"
  by (simp add: device_ioctl_def device_open_def device_release_def queue_init_def
      DEFAULT_MODE_def SINGLE_OPEN_MODE_def MULTI_OPEN_MODE_def)

text \<open>
  Claim C4. The claim says that after a close in shared mode a fresh open followed by a
  read returns 0 bytes. In shared mode, from the initial state: an open, a write of the
  9 bytes of \<open>temporary\<close>, the close, a second open, a read of 9 bytes. The close
  unlinks all 9 elements and leaves \<open>data_size\<close> at 9, so the read enters its loop and
  takes \<open>list_first_entry\<close> of the empty list.
\<close>

theorem read_after_shared_close_faults:
  "device_open None \<lparr>private_data = NULL\<rparr> queue_init
     = (Inr (), \<lparr>private_data = Addr_default_queue\<rparr>, queue_init)
   \<and> device_write \<lparr>private_data = Addr_default_queue\<rparr>
       (user_buf [116, 101, 109, 112, 111, 114, 97, 114, 121]) 9 (\<lambda>j. True) queue_init
     = Inr (Inr 9, queue_init\<lparr>default_queue :=
         \<lparr>queue = [116, 101, 109, 112, 111, 114, 97, 114, 121], data_size = 9\<rparr>\<rparr>)
   \<and> device_release \<lparr>private_data = Addr_default_queue\<rparr>
       (queue_init\<lparr>default_queue :=
         \<lparr>queue = [116, 101, 109, 112, 111, 114, 97, 114, 121], data_size = 9\<rparr>\<rparr>)
     = Inr (queue_init\<lparr>default_queue := \<lparr>queue = [], data_size = 9\<rparr>\<rparr>)
   \<and> device_open None \<lparr>private_data = NULL\<rparr>
       (queue_init\<lparr>default_queue := \<lparr>queue = [], data_size = 9\<rparr>\<rparr>)
     = (Inr (), \<lparr>private_data = Addr_default_queue\<rparr>,
        queue_init\<lparr>default_queue := \<lparr>queue = [], data_size = 9\<rparr>\<rparr>)
   \<and> device_read \<lparr>private_data = Addr_default_queue\<rparr> (\<lambda>j. True) 9
       (queue_init\<lparr>default_queue := \<lparr>queue = [], data_size = 9\<rparr>\<rparr>)
     = Inl Empty_list_entry"
  by (simp add: device_open_def device_write_def device_release_def device_read_def
      write_loop.simps read_loop.simps queue_init_def user_buf_def QUEUE_SIZE_def word_sless_alt
      DEFAULT_MODE_def SINGLE_OPEN_MODE_def MULTI_OPEN_MODE_def)

text \<open>
  Claim C5. The claim says that the counter equals the number of linked elements after
  every operation, close included. After a write of one byte the invariant holds; the
  close that follows empties the list and leaves the counter at 1.
\<close>

theorem close_breaks_queue_inv:
  "device_write \<lparr>private_data = Addr_default_queue\<rparr> (user_buf [97]) 1 (\<lambda>j. True) queue_init
     = Inr (Inr 1, queue_init\<lparr>default_queue := \<lparr>queue = [97], data_size = 1\<rparr>\<rparr>)
   \<and> queue_inv \<lparr>queue = [97], data_size = 1\<rparr>
   \<and> device_release \<lparr>private_data = Addr_default_queue\<rparr>
       (queue_init\<lparr>default_queue := \<lparr>queue = [97], data_size = 1\<rparr>\<rparr>)
     = Inr (queue_init\<lparr>default_queue := \<lparr>queue = [], data_size = 1\<rparr>\<rparr>)
   \<and> \<not> queue_inv \<lparr>queue = [], data_size = 1\<rparr>"
  by (simp add: device_write_def device_release_def write_loop.simps queue_init_def user_buf_def
      QUEUE_SIZE_def queue_inv_def DEFAULT_MODE_def SINGLE_OPEN_MODE_def MULTI_OPEN_MODE_def)

text \<open>
  Claim C6. In \<open>SINGLE_OPEN_MODE\<close>, after an open that succeeded, a second open
  returns \<open>-EBUSY\<close> at once and changes nothing (\<open>mutex_trylock\<close> does not wait, and
  the function has no loop); once the first handle is closed, the open succeeds and
  takes the mutex again.
\<close>

theorem exclusive_open_busy_until_close:
  assumes "device_mode st = SINGLE_OPEN_MODE"
    and "device_open kzallocA fileA st = (Inr (), fileA', st1)"
  shows "device_open kzallocB fileB st1 = (Inl EBUSY, fileB, st1)
    \<and> (\<exists>st2. device_release fileA' st1 = Inr st2
          \<and> device_open kzallocB fileB st2 =
              (Inr (), fileB\<lparr>private_data := Addr_default_queue\<rparr>, st2\<lparr>single_open_lock := True\<rparr>))"
proof -
  from assms(2) have o: "(if single_open_lock st then (Inl EBUSY, fileA, st)
      else (Inr (), fileA\<lparr>private_data := Addr_default_queue\<rparr>, st\<lparr>single_open_lock := True\<rparr>))
      = (Inr (), fileA', st1)"
    by (simp only: device_open_single [OF assms(1)])
  then have free: "\<not> single_open_lock st"
    by (cases "single_open_lock st") simp_all
  with o have st1: "st1 = st\<lparr>single_open_lock := True\<rparr>"
    and fileA': "private_data fileA' = Addr_default_queue"
    by auto
  have busy: "device_open kzallocB fileB st1 = (Inl EBUSY, fileB, st1)"
    using assms(1) st1 by (simp add: device_open_single)
  let ?st2 = "st\<lparr>single_open_lock := False,
    default_queue := (default_queue st)\<lparr>queue := []\<rparr>\<rparr>"
  have rel: "device_release fileA' st1 = Inr ?st2"
    using assms(1) st1 fileA'
    by (simp add: device_release_def release_loop_empty SINGLE_OPEN_MODE_def MULTI_OPEN_MODE_def)
  have "device_open kzallocB fileB ?st2 =
      (Inr (), fileB\<lparr>private_data := Addr_default_queue\<rparr>, ?st2\<lparr>single_open_lock := True\<rparr>)"
    using assms(1) by (simp add: device_open_single)
  with busy rel show ?thesis
    by simp
qed

theorem exclusive_open_busy_until_close_witness:
  "device_open None \<lparr>private_data = NULL\<rparr>
       (queue_init\<lparr>device_mode := SINGLE_OPEN_MODE, single_open_lock := True\<rparr>)
     = (Inl EBUSY, \<lparr>private_data = NULL\<rparr>,
        queue_init\<lparr>device_mode := SINGLE_OPEN_MODE, single_open_lock := True\<rparr>)
   \<and> (\<exists>st2. device_release \<lparr>private_data = Addr_default_queue\<rparr>
         (queue_init\<lparr>device_mode := SINGLE_OPEN_MODE, single_open_lock := True\<rparr>) = Inr st2
       \<and> device_open None \<lparr>private_data = NULL\<rparr> st2 =
           (Inr (), \<lparr>private_data = Addr_default_queue\<rparr>, st2\<lparr>single_open_lock := True\<rparr>))"
proof -
  let ?st = "queue_init\<lparr>device_mode := SINGLE_OPEN_MODE\<rparr>"
  have 1: "device_mode ?st = SINGLE_OPEN_MODE"
    by simp
  have 2: "device_open None \<lparr>private_data = NULL\<rparr> ?st =
      (Inr (), \<lparr>private_data = Addr_default_queue\<rparr>,
       queue_init\<lparr>device_mode := SINGLE_OPEN_MODE, single_open_lock := True\<rparr>)"
    by (simp add: device_open_single queue_init_def)
  show ?thesis
    using exclusive_open_busy_until_close [OF 1 2, of None "\<lparr>private_data = NULL\<rparr>"]
    by simp
qed

text \<open>
  Claim C7. Let a write pass the capacity check and let \<open>k\<close> be the first index at
  which the allocation of the element or the copy from the caller's buffer fails. Then
  the \<open>k\<close> bytes before it have been appended and stay in the queue, no element is
  linked for byte \<open>k\<close>, and the call returns the error alone: \<open>-ENOMEM\<close> for the
  allocation, \<open>-EFAULT\<close> for the copy, never the number \<open>k\<close>.
\<close>

theorem write_partial_failure:
  assumes "deref st (private_data file) = Some q"
    and "0 \<le> sint (data_size q)"
    and "count \<le> MAX_RW_COUNT"
    and "unat count + nat (sint (data_size q)) \<le> 1000"
    and "k < unat count"
    and "\<forall>j<k. kmalloc j \<and> buf j \<noteq> None"
    and "\<not> kmalloc k \<or> buf k = None"
  shows "device_write file buf count kmalloc st =
    Inr (Inl (if kmalloc k then EFAULT else ENOMEM),
         assign (private_data file)
           (q\<lparr>queue := queue q @ map (\<lambda>j. the (buf j)) [0..<k],
              data_size := data_size q + of_nat k\<rparr>) st)"
proof -
  have no: "\<not> count + scast (data_size q) > QUEUE_SIZE"
    using assms(2-4) by (rule no_overflow)
  have "write_loop kmalloc buf count 0 q =
    (Some (if kmalloc k then EFAULT else ENOMEM), of_nat k,
     q\<lparr>queue := queue q @ map (\<lambda>j. the (buf j)) [unat (0 :: 64 word)..<k],
       data_size := data_size q + of_nat (k - unat (0 :: 64 word))\<rparr>)"
    using assms(5-7) by (intro write_loop_fail) simp_all
  then show ?thesis
    using assms(1) no by (simp add: device_write_def)
qed

theorem write_partial_failure_witness:
  "device_write \<lparr>private_data = Addr_default_queue\<rparr> (user_buf [7, 8]) 3 (\<lambda>j. True) queue_init
     = Inr (Inl EFAULT, queue_init\<lparr>default_queue := \<lparr>queue = [7, 8], data_size = 2\<rparr>\<rparr>)
   \<and> device_write \<lparr>private_data = Addr_default_queue\<rparr> (user_buf [7, 8]) 2 (\<lambda>j. j < 1) queue_init
     = Inr (Inl ENOMEM, queue_init\<lparr>default_queue := \<lparr>queue = [7], data_size = 1\<rparr>\<rparr>)"
  using write_partial_failure [of queue_init "\<lparr>private_data = Addr_default_queue\<rparr>"
      "\<lparr>queue = [], data_size = 0\<rparr>" 3 2 "\<lambda>j. True" "user_buf [7, 8]"]
    write_partial_failure [of queue_init "\<lparr>private_data = Addr_default_queue\<rparr>"
      "\<lparr>queue = [], data_size = 0\<rparr>" 2 1 "\<lambda>j. j < 1" "user_buf [7, 8]"]
  by (simp add: MAX_RW_COUNT_def queue_init_def user_buf_def upt_rec)

text \<open>
  Claim C8. Handle A is opened in \<open>MULTI_OPEN_MODE\<close>; later, while A's queue is live,
  handle B is opened in \<open>MULTI_OPEN_MODE\<close>, the allocator handing out memory that is
  not in use. Both opens succeed and bind their handle to an empty queue of its own,
  the two queues are distinct, B's open leaves A's queue as it is, and from then on no
  write through B, in whatever state, changes A's queue or the return value and bytes
  of any read through A.
\<close>

theorem per_handle_isolation:
  assumes "device_mode st = MULTI_OPEN_MODE"
    and "device_open (Some a) fileA0 st = (rA, fileA, st1)"
    and "device_mode st2 = MULTI_OPEN_MODE"
    and "deref st2 (private_data fileA) = Some qA"
    and "kmem st2 b = None"
    and "device_open (Some b) fileB0 st2 = (rB, fileB, st3)"
  shows "rA = Inr () \<and> rB = Inr ()
    \<and> deref st1 (private_data fileA) = Some \<lparr>queue = [], data_size = 0\<rparr>
    \<and> deref st3 (private_data fileB) = Some \<lparr>queue = [], data_size = 0\<rparr>
    \<and> private_data fileA \<noteq> private_data fileB
    \<and> deref st3 (private_data fileA) = Some qA
    \<and> (\<forall>s buf count kmalloc r s'.
          device_write fileB buf count kmalloc s = Inr (r, s') \<longrightarrow>
            deref s' (private_data fileA) = deref s (private_data fileA)
            \<and> (\<forall>ubuf c. read_view (device_read fileA ubuf c s')
                        = read_view (device_read fileA ubuf c s)))"
proof -
  note A = device_open_multi_facts [OF assms(1,2)]
  note B = device_open_multi_facts [OF assms(3,6)]
  from assms(4,5) A(2) have ne: "a \<noteq> b"
    by auto
  then have diff: "private_data fileA \<noteq> private_data fileB"
    using A(2) B(2) by simp
  have keep: "deref st3 (private_data fileA) = Some qA"
    using assms(4) A(2) B(4) ne by simp
  have iso: "deref s' (private_data fileA) = deref s (private_data fileA)
      \<and> (\<forall>ubuf c. read_view (device_read fileA ubuf c s') = read_view (device_read fileA ubuf c s))"
    if w: "device_write fileB buf count kmalloc s = Inr (r, s')" for s buf count kmalloc r s'
  proof -
    have "deref s' (private_data fileA) = deref s (private_data fileA)"
      using w diff by (rule device_write_other)
    then show ?thesis
      by (intro conjI allI read_view_cong)
  qed
  show ?thesis
    apply (intro conjI allI impI)
            apply (rule A(1))
           apply (rule B(1))
          apply (rule A(3))
         apply (rule B(3))
        apply (rule diff)
       apply (rule keep)
      apply (erule iso [THEN conjunct1])
    apply (erule iso [THEN conjunct2, rule_format])
    done
qed

theorem per_handle_isolation_witness:
  "\<exists>s s'.
     device_write \<lparr>private_data = Addr_kmem 0\<rparr> (user_buf [100, 97, 116, 97, 49]) 5 (\<lambda>j. True)
         (queue_init\<lparr>device_mode := MULTI_OPEN_MODE,
            kmem := [0 \<mapsto> \<lparr>queue = [], data_size = 0\<rparr>, 1 \<mapsto> \<lparr>queue = [], data_size = 0\<rparr>]\<rparr>)
       = Inr (Inr 5, s)
     \<and> device_write \<lparr>private_data = Addr_kmem 1\<rparr> (user_buf [100, 97, 116, 97, 50]) 5 (\<lambda>j. True) s
       = Inr (Inr 5, s')
     \<and> read_view (device_read \<lparr>private_data = Addr_kmem 0\<rparr> (\<lambda>j. True) 1000 s')
       = Inr (Inr 5, [100, 97, 116, 97, 49])"
proof -
  let ?e = "\<lparr>queue = [], data_size = 0\<rparr> :: queue_device"
  let ?st = "queue_init\<lparr>device_mode := MULTI_OPEN_MODE\<rparr>"
  let ?st1 = "queue_init\<lparr>device_mode := MULTI_OPEN_MODE, kmem := [0 \<mapsto> ?e]\<rparr>"
  let ?st3 = "queue_init\<lparr>device_mode := MULTI_OPEN_MODE, kmem := [0 \<mapsto> ?e, 1 \<mapsto> ?e]\<rparr>"
  let ?fA = "\<lparr>private_data = Addr_kmem 0\<rparr>"
  let ?fB = "\<lparr>private_data = Addr_kmem 1\<rparr>"
  let ?s = "assign (Addr_kmem 0) \<lparr>queue = [100, 97, 116, 97, 49], data_size = 5\<rparr> ?st3"
  let ?s' = "assign (Addr_kmem 1) \<lparr>queue = [100, 97, 116, 97, 50], data_size = 5\<rparr> ?s"
  have 1: "device_mode ?st = MULTI_OPEN_MODE"
    by simp
  have 2: "device_open (Some 0) \<lparr>private_data = NULL\<rparr> ?st = (Inr (), ?fA, ?st1)"
    by (simp add: device_open_multi queue_init_def)
  have 3: "device_mode ?st1 = MULTI_OPEN_MODE"
    by simp
  have 4: "deref ?st1 (private_data ?fA) = Some ?e"
    by simp
  have 5: "kmem ?st1 1 = None"
    by simp
  have 6: "device_open (Some 1) \<lparr>private_data = NULL\<rparr> ?st1 = (Inr (), ?fB, ?st3)"
    by (simp add: device_open_multi queue_init_def)
  have wA: "device_write ?fA (user_buf [100, 97, 116, 97, 49]) 5 (\<lambda>j. True) ?st3 = Inr (Inr 5, ?s)"
    by (simp add: device_write_def write_loop.simps QUEUE_SIZE_def user_buf_def)
  have wB: "device_write ?fB (user_buf [100, 97, 116, 97, 50]) 5 (\<lambda>j. True) ?s = Inr (Inr 5, ?s')"
    by (simp add: device_write_def write_loop.simps QUEUE_SIZE_def user_buf_def)
  have rA: "read_view (device_read ?fA (\<lambda>j. True) 1000 ?s) = Inr (Inr 5, [100, 97, 116, 97, 49])"
    by (simp add: device_read_def read_loop.simps word_sless_alt)
  from per_handle_isolation [OF 1 2 3 4 5 6] wB
  have "read_view (device_read ?fA (\<lambda>j. True) 1000 ?s')
      = read_view (device_read ?fA (\<lambda>j. True) 1000 ?s)"
    by blast
  with rA have "read_view (device_read ?fA (\<lambda>j. True) 1000 ?s') = Inr (Inr 5, [100, 97, 116, 97, 49])"
    by simp
  with wA wB show ?thesis
    by blast
qed

text \<open>
  Claim C9. The claim says that a read whose deliveries succeed removes and returns
  \<open>min count length\<close> bytes, and that a read on an empty queue returns 0 bytes, never
  an error, and leaves the queue as it is. That holds while the counter equals the
  number of linked elements, which a close undoes. In shared mode, from the initial
  state: an open, a write of 3 bytes, the close, a second open. The queue now has no
  element and \<open>data_size\<close> 3. A read of 1 byte into a writable buffer enters the loop
  and works on the list head; a read of 1 byte into an unwritable buffer returns
  \<open>-EFAULT\<close>. After a further write of the 2 bytes \<open>xy\<close> the queue has 2 elements and
  \<open>data_size\<close> 5, and a read of 5 bytes delivers the 2 bytes and then works on the list
  head, where the claim has it return 2 (or 5, counting by \<open>data_size\<close>).
\<close>

theorem read_with_stale_counter:
  "device_open None \<lparr>private_data = NULL\<rparr> queue_init
     = (Inr (), \<lparr>private_data = Addr_default_queue\<rparr>, queue_init)
   \<and> device_write \<lparr>private_data = Addr_default_queue\<rparr> (user_buf [97, 98, 99]) 3 (\<lambda>j. True)
       queue_init
     = Inr (Inr 3, queue_init\<lparr>default_queue := \<lparr>queue = [97, 98, 99], data_size = 3\<rparr>\<rparr>)
   \<and> device_release \<lparr>private_data = Addr_default_queue\<rparr>
       (queue_init\<lparr>default_queue := \<lparr>queue = [97, 98, 99], data_size = 3\<rparr>\<rparr>)
     = Inr (queue_init\<lparr>default_queue := \<lparr>queue = [], data_size = 3\<rparr>\<rparr>)
   \<and> device_open None \<lparr>private_data = NULL\<rparr>
       (queue_init\<lparr>default_queue := \<lparr>queue = [], data_size = 3\<rparr>\<rparr>)
     = (Inr (), \<lparr>private_data = Addr_default_queue\<rparr>,
        queue_init\<lparr>default_queue := \<lparr>queue = [], data_size = 3\<rparr>\<rparr>)
   \<and> device_read \<lparr>private_data = Addr_default_queue\<rparr> (\<lambda>j. True) 1
       (queue_init\<lparr>default_queue := \<lparr>queue = [], data_size = 3\<rparr>\<rparr>)
     = Inl Empty_list_entry
   \<and> device_read \<lparr>private_data = Addr_default_queue\<rparr> (\<lambda>j. False) 1
       (queue_init\<lparr>default_queue := \<lparr>queue = [], data_size = 3\<rparr>\<rparr>)
     = Inr (Inl EFAULT, [], queue_init\<lparr>default_queue := \<lparr>queue = [], data_size = 3\<rparr>\<rparr>)
   \<and> device_write \<lparr>private_data = Addr_default_queue\<rparr> (user_buf [120, 121]) 2 (\<lambda>j. True)
       (queue_init\<lparr>default_queue := \<lparr>queue = [], data_size = 3\<rparr>\<rparr>)
     = Inr (Inr 2, queue_init\<lparr>default_queue := \<lparr>queue = [120, 121], data_size = 5\<rparr>\<rparr>)
   \<and> device_read \<lparr>private_data = Addr_default_queue\<rparr> (\<lambda>j. True) 5
       (queue_init\<lparr>default_queue := \<lparr>queue = [120, 121], data_size = 5\<rparr>\<rparr>)
     = Inl Empty_list_entry"
  by (simp add: device_open_def device_write_def device_release_def device_read_def
      write_loop.simps read_loop.simps queue_init_def user_buf_def QUEUE_SIZE_def word_sless_alt
      DEFAULT_MODE_def SINGLE_OPEN_MODE_def MULTI_OPEN_MODE_def)

text \<open>
  Claim C10. On a queue that satisfies the invariant, let the delivery of byte \<open>k\<close>
  be the first to fail. Then exactly the \<open>k\<close> bytes delivered before it have left the
  queue, the byte that could not be delivered is still the head of the queue, the
  counter has gone down by \<open>k\<close>, and the call returns \<open>-EFAULT\<close> alone.
\<close>

theorem read_partial_failure:
  assumes "deref st (private_data file) = Some q" and "queue_inv q"
    and "k < unat count" and "k < length (queue q)"
    and "\<forall>j<k. ubuf j" and "\<not> ubuf k"
  shows "device_read file ubuf count st =
      Inr (Inl EFAULT, take k (queue q),
           assign (private_data file)
             (q\<lparr>queue := queue q ! k # drop (Suc k) (queue q),
                data_size := of_nat (length (queue q) - k)\<rparr>) st)
    \<and> sint (of_nat (length (queue q) - k) :: 32 word) = sint (data_size q) - int k"
proof -
  from assms(2) have inv: "data_size q = of_nat (length (queue q))" "length (queue q) < 2 ^ 31"
    by (simp_all add: queue_inv_of_nat)
  have "read_loop ubuf count 0 [] q =
    Inr (Some EFAULT, of_nat k, [] @ take (k - unat (0 :: 64 word)) (queue q),
         q\<lparr>queue := drop (k - unat (0 :: 64 word)) (queue q),
           data_size := of_nat (length (queue q) - (k - unat (0 :: 64 word)))\<rparr>)"
    using inv assms(3-6) by (intro read_loop_fail) simp_all
  then have "device_read file ubuf count st =
      Inr (Inl EFAULT, take k (queue q),
           assign (private_data file)
             (q\<lparr>queue := drop k (queue q), data_size := of_nat (length (queue q) - k)\<rparr>) st)"
    using assms(1) by (simp add: device_read_def)
  moreover have "drop k (queue q) = queue q ! k # drop (Suc k) (queue q)"
    using assms(4) by (simp add: Cons_nth_drop_Suc)
  moreover have "sint (of_nat (length (queue q) - k) :: 32 word) = int (length (queue q) - k)"
    using inv(2) by (intro sint_of_nat_32) simp
  moreover have "sint (data_size q) = int (length (queue q))"
    using assms(2) by (simp add: queue_inv_def)
  ultimately show ?thesis
    using assms(4) by simp
qed


theorem read_partial_failure_witness:
  "device_read \<lparr>private_data = Addr_default_queue\<rparr> (\<lambda>j. j < 1) 3
       (queue_init\<lparr>default_queue := \<lparr>queue = [7, 8, 9], data_size = 3\<rparr>\<rparr>)
     = Inr (Inl EFAULT, [7], queue_init\<lparr>default_queue := \<lparr>queue = [8, 9], data_size = 2\<rparr>\<rparr>)"
  using read_partial_failure [of "queue_init\<lparr>default_queue := \<lparr>queue = [7, 8, 9], data_size = 3\<rparr>\<rparr>"
      "\<lparr>private_data = Addr_default_queue\<rparr>" "\<lparr>queue = [7, 8, 9], data_size = 3\<rparr>" 1 3 "\<lambda>j. j < 1"]
  by (simp add: queue_init_def queue_inv_def)

end
